theory Spec2Isabelle
  imports Complex_Main "HOL-Library.Sublist"
begin

section \<open>The image sorter: grouping images by perceptual-hash distance\<close>

text \<open>
  The program is one Python script, \<^verbatim>\<open>main.py\<close>. It walks a directory, compares every
  pair of image files by the difference of their perceptual hashes, collects the pairs
  whose normalised index reaches a threshold into labelled groups, and writes the groups
  to a CSV file.

  Everything the script takes from outside (the directory walk, the image decoder, the
  hash, the clock, whether the report can be opened) is a field of the record
  \<open>world\<close>. A Python float is modelled by the real number it stands for. Every index is
  an integer divided by 256, which binary floating point represents exactly, so line 56
  needs no rounding. The arithmetic on clock readings of lines 69 to 72 does round: there
  every float operation is the exact operation followed by the rounding \<open>fl\<close> of the
  world.
\<close>

subsection \<open>Errors, console lines, report cells\<close>

type_synonym path = string

datatype error =
    ImageDecodeError path
  | ZeroDivisionError
  | IOError path

text \<open>A Python number: an integer, or a float.\<close>

datatype number = PyInt int | PyFloat real

text \<open>The four \<^verbatim>\<open>print\<close> statements, each with the values it formats.\<close>

datatype out =
    Generating
  | SimilarityLine path path real
  | ProgressLine nat nat number number
  | WrittenLine path

text \<open>A cell of the report: a string or a float.\<close>

datatype cell = S string | F real

text \<open>
  The world. \<open>os_walk\<close> gives what \<^verbatim>\<open>os.walk\<close> yields for a directory: triples of a
  directory path, its subdirectory names and its file names. \<open>Image_open\<close> and \<open>phash\<close>
  are \<^verbatim>\<open>Image.open\<close> and \<^verbatim>\<open>imagehash.phash\<close>, either of which can raise on a file
  that is not a readable image. \<open>hash_sub\<close> is the subtraction of two hashes, the number
  of bits in which they differ; the hashes of one run have the same length, so it does
  not raise. \<open>time_time k\<close> is the \<open>k\<close>-th reading of the clock, counted from 0.
  \<open>fl x\<close> is the float nearest to \<open>x\<close>, the rounding every float operation ends with
  (overflow to infinity is left out). \<open>open_w p\<close> says whether \<open>p\<close> can be opened for
  writing.
\<close>

record ('img, 'h) world =
  os_walk :: "path \<Rightarrow> (path \<times> string list \<times> string list) list"
  Image_open :: "path \<Rightarrow> error + 'img"
  phash :: "'img \<Rightarrow> error + 'h"
  hash_sub :: "'h \<Rightarrow> 'h \<Rightarrow> nat"
  time_time :: "nat \<Rightarrow> real"
  fl :: "real \<Rightarrow> real"
  open_w :: "path \<Rightarrow> bool"

subsection \<open>Strings and paths\<close>

definition endswith :: "string \<Rightarrow> string \<Rightarrow> bool" where
  "endswith s suf \<longleftrightarrow>
     length suf \<le> length s \<and> drop (length s - length suf) s = suf"

text \<open>\<^verbatim>\<open>os.path.join\<close> and \<^verbatim>\<open>os.path.basename\<close> of \<^verbatim>\<open>posixpath\<close>, for two
  arguments.\<close>

definition os_path_join :: "path \<Rightarrow> string \<Rightarrow> path" where
  "os_path_join a b =
     (if b \<noteq> [] \<and> hd b = CHR ''/'' then b
      else if a = [] \<or> last a = CHR ''/'' then a @ b
      else a @ ''/'' @ b)"

definition os_path_basename :: "path \<Rightarrow> string" where
  "os_path_basename p = rev (takeWhile (\<lambda>c. c \<noteq> CHR ''/'') (rev p))"

text \<open>\<^verbatim>\<open>str(n)\<close> for a non-negative integer.\<close>

definition digit :: "nat \<Rightarrow> char" where
  "digit d = ''0123456789'' ! d"

fun str_nat :: "nat \<Rightarrow> string" where
  "str_nat n = (if n < 10 then [digit n] else str_nat (n div 10) @ [digit (n mod 10)])"

declare str_nat.simps [simp del]

subsection \<open>The dictionary of groups\<close>

text \<open>
  \<^verbatim>\<open>similarity_groups\<close> is a Python \<^verbatim>\<open>dict\<close> from labels to lists of
  (file name, index) pairs. The report is written in the dictionary's iteration order,
  which is insertion order, so it is an association list here.
\<close>

type_synonym entry = "string \<times> real"
type_synonym groups = "(string \<times> entry list) list"

definition dict_contains :: "string \<Rightarrow> groups \<Rightarrow> bool" where
  "dict_contains k d \<longleftrightarrow> k \<in> set (map fst d)"

fun dict_set :: "string \<Rightarrow> entry list \<Rightarrow> groups \<Rightarrow> groups" where
  "dict_set k v [] = [(k, v)]"
| "dict_set k v ((k', v') # d) = (if k' = k then (k, v) # d else (k', v') # dict_set k v d)"

text \<open>\<^verbatim>\<open>d[k].append(x)\<close>. The script only reaches it for a key that is present (lines
  63 and 64 insert it first); for an absent key this leaves the dictionary as it is.\<close>

fun dict_append :: "string \<Rightarrow> entry \<Rightarrow> groups \<Rightarrow> groups" where
  "dict_append k x [] = []"
| "dict_append k x ((k', v') # d) =
     (if k' = k then (k', v' @ [x]) # d else (k', v') # dict_append k x d)"

subsection \<open>\<^verbatim>\<open>calculate_similarity_index\<close> and \<^verbatim>\<open>get_image_files\<close>\<close>

definition calculate_similarity_index ::
  "('img, 'h) world \<Rightarrow> path \<Rightarrow> path \<Rightarrow> error + nat" where
  "calculate_similarity_index W image1_path image2_path =
     (case Image_open W image1_path of Inl e \<Rightarrow> Inl e | Inr image1 \<Rightarrow>
      case Image_open W image2_path of Inl e \<Rightarrow> Inl e | Inr image2 \<Rightarrow>
      case phash W image1 of Inl e \<Rightarrow> Inl e | Inr hash1 \<Rightarrow>
      case phash W image2 of Inl e \<Rightarrow> Inl e | Inr hash2 \<Rightarrow>
      Inr (hash_sub W hash1 hash2))"

definition is_image_name :: "string \<Rightarrow> bool" where
  "is_image_name filename \<longleftrightarrow>
     endswith filename ''.jpg'' \<or> endswith filename ''.png'' \<or> endswith filename ''.jpeg''"

definition get_image_files :: "('img, 'h) world \<Rightarrow> path \<Rightarrow> path list" where
  "get_image_files W directory =
     concat (map (\<lambda>(dirpath, dirnames, filenames).
                    map (os_path_join dirpath) (filter is_image_name filenames))
                 (os_walk W directory))"

subsection \<open>The comparison loops of \<^verbatim>\<open>generate_similarity_groups\<close>\<close>

text \<open>Line 56: \<^verbatim>\<open>similarity_index /= 256\<close>.\<close>

definition normalize_index :: "nat \<Rightarrow> real" where
  "normalize_index raw = real raw / 256"

text \<open>
  Python's arithmetic on numbers. \<^verbatim>\<open>/\<close> raises on a zero divisor and gives a float
  otherwise; \<^verbatim>\<open>*\<close> and \<^verbatim>\<open>-\<close> are exact on two integers and give a rounded float as
  soon as one operand is a float. An integer operand is converted to a float first, which
  is exact for the counts that occur here (below \<open>2^53\<close>).
\<close>

fun value_of :: "number \<Rightarrow> real" where
  "value_of (PyInt i) = real_of_int i"
| "value_of (PyFloat x) = x"

definition truediv :: "('img, 'h) world \<Rightarrow> number \<Rightarrow> number \<Rightarrow> error + number" where
  "truediv W a b =
     (if value_of b = 0 then Inl ZeroDivisionError
      else Inr (PyFloat (fl W (value_of a / value_of b))))"

fun py_mul :: "('img, 'h) world \<Rightarrow> number \<Rightarrow> number \<Rightarrow> number" where
  "py_mul W (PyInt a) (PyInt b) = PyInt (a * b)"
| "py_mul W a b = PyFloat (fl W (value_of a * value_of b))"

fun py_sub :: "('img, 'h) world \<Rightarrow> number \<Rightarrow> number \<Rightarrow> number" where
  "py_sub W (PyInt a) (PyInt b) = PyInt (a - b)"
| "py_sub W a b = PyFloat (fl W (value_of a - value_of b))"

text \<open>Lines 70 to 72: the estimate of the remaining time.\<close>

definition eta_of ::
  "('img, 'h) world \<Rightarrow> number \<Rightarrow> nat \<Rightarrow> nat \<Rightarrow> error + number" where
  "eta_of W elapsed_time progress total_images =
     (case (if progress > 0 then truediv W elapsed_time (PyInt (int progress))
            else Inr (PyInt 0)) of
        Inl e \<Rightarrow> Inl e
      | Inr time_per_image \<Rightarrow>
          (let estimated_total_time = py_mul W time_per_image (PyInt (int total_images))
           in Inr (py_sub W estimated_total_time elapsed_time)))"

text \<open>
  The state of the loops: the dictionary, the progress counter, the lines printed so
  far, and (as a record of the calls made, which the script itself does not keep) the
  index pairs handed to \<^verbatim>\<open>calculate_similarity_index\<close>, in call order.
\<close>

record state =
  similarity_groups :: groups
  progress :: nat
  console :: "out list"
  compared :: "(nat \<times> nat) list"

definition group_label :: "nat \<Rightarrow> string" where
  "group_label n = ''Similarity Group '' @ str_nat n"

text \<open>Lines 57 to 66: the body of the inner loop once the index is known.
  \<open>g\<close> is the local variable \<^verbatim>\<open>similarity_group\<close>.\<close>

definition on_index ::
  "real \<Rightarrow> bool \<Rightarrow> path \<Rightarrow> path \<Rightarrow> real \<Rightarrow> string option \<times> state \<Rightarrow> string option \<times> state" where
  "on_index similarity_threshold verbose fi fj similarity_index gs =
     (case gs of (g, s) \<Rightarrow>
      let s1 = (if verbose
                then s\<lparr>console := console s @ [SimilarityLine fi fj similarity_index]\<rparr>
                else s)
      in if similarity_index \<ge> similarity_threshold then
           let d0 = similarity_groups s1;
               similarity_group = (case g of None \<Rightarrow> group_label (length d0 + 1) | Some l \<Rightarrow> l);
               d1 = (if \<not> dict_contains similarity_group d0
                     then dict_set similarity_group [] d0 else d0);
               d2 = dict_append similarity_group (os_path_basename fi, similarity_index) d1;
               d3 = dict_append similarity_group (os_path_basename fj, similarity_index) d2
           in (Some similarity_group, s1\<lparr>similarity_groups := d3\<rparr>)
         else (g, s1))"

text \<open>The inner loop, \<^verbatim>\<open>for j in range(i+1, len(image_files))\<close>. An exception leaves
  the loop with the state reached.\<close>

fun scan_j ::
  "('img, 'h) world \<Rightarrow> path list \<Rightarrow> real \<Rightarrow> bool \<Rightarrow> nat \<Rightarrow> nat list \<Rightarrow>
   string option \<times> state \<Rightarrow> error \<times> state + string option \<times> state" where
  "scan_j W image_files thr verbose i [] gs = Inr gs"
| "scan_j W image_files thr verbose i (j # js) gs =
     (case gs of (g, s) \<Rightarrow>
      let s' = s\<lparr>compared := compared s @ [(i, j)]\<rparr> in
      (case calculate_similarity_index W (image_files ! i) (image_files ! j) of
         Inl e \<Rightarrow> Inl (e, s')
       | Inr raw \<Rightarrow>
           scan_j W image_files thr verbose i js
             (on_index thr verbose (image_files ! i) (image_files ! j)
                (normalize_index raw) (g, s'))))"

text \<open>Lines 68 to 74. The clock is read once before the loops (reading 0) and once in
  every outer iteration, so the reading taken here is number \<open>progress\<close>.\<close>

definition report_progress ::
  "('img, 'h) world \<Rightarrow> bool \<Rightarrow> nat \<Rightarrow> state \<Rightarrow> error \<times> state + state" where
  "report_progress W verbose total_images s =
     (let s1 = s\<lparr>progress := progress s + 1\<rparr>;
          elapsed_time = py_sub W (PyFloat (time_time W (progress s1))) (PyFloat (time_time W 0))
      in case eta_of W elapsed_time (progress s1) total_images of
           Inl e \<Rightarrow> Inl (e, s1)
         | Inr eta \<Rightarrow>
             Inr (if verbose
                  then s1\<lparr>console := console s1 @
                         [ProgressLine (progress s1) total_images elapsed_time eta]\<rparr>
                  else s1))"

text \<open>The outer loop, \<^verbatim>\<open>for i in range(len(image_files))\<close>.\<close>

fun scan_i ::
  "('img, 'h) world \<Rightarrow> path list \<Rightarrow> real \<Rightarrow> bool \<Rightarrow> nat list \<Rightarrow> state \<Rightarrow>
   error \<times> state + state" where
  "scan_i W image_files thr verbose [] s = Inr s"
| "scan_i W image_files thr verbose (i # is) s =
     (case scan_j W image_files thr verbose i [i + 1 ..< length image_files] (None, s) of
        Inl x \<Rightarrow> Inl x
      | Inr (g, s1) \<Rightarrow>
          (case report_progress W verbose (length image_files) s1 of
             Inl x \<Rightarrow> Inl x
           | Inr s2 \<Rightarrow> scan_i W image_files thr verbose is s2))"

subsection \<open>The report and the whole run\<close>

definition header :: "cell list" where
  "header = [S ''Similarity Group'', S ''Image File'', S ''Similarity Index'']"

definition data_rows :: "groups \<Rightarrow> cell list list" where
  "data_rows d =
     concat (map (\<lambda>(similarity_group, images).
                    map (\<lambda>image. [S similarity_group, S (fst image), F (snd image)]) images) d)"

text \<open>What a run leaves behind: the exception that ended it, if any; the report file, if
  it was opened, with its rows; and the final state of the loops.\<close>

record run =
  raised :: "error option"
  csv_file :: "(path \<times> cell list list) option"
  final :: state

definition generate_similarity_groups ::
  "('img, 'h) world \<Rightarrow> path \<Rightarrow> real \<Rightarrow> path \<Rightarrow> bool \<Rightarrow> bool \<Rightarrow> int \<Rightarrow> run" where
  "generate_similarity_groups W image_directory similarity_threshold output_csv
       verbose use_light_model batch_size =
     (let image_files = get_image_files W image_directory;
          s0 = \<lparr>similarity_groups = [], progress = 0,
                console = (if verbose then [Generating] else []), compared = []\<rparr>
      in case scan_i W image_files similarity_threshold verbose [0 ..< length image_files] s0 of
           Inl (e, s) \<Rightarrow> \<lparr>raised = Some e, csv_file = None, final = s\<rparr>
         | Inr s \<Rightarrow>
             if open_w W output_csv
             then \<lparr>raised = None,
                   csv_file = Some (output_csv, header # data_rows (similarity_groups s)),
                   final = (if verbose then s\<lparr>console := console s @ [WrittenLine output_csv]\<rparr>
                            else s)\<rparr>
             else \<lparr>raised = Some (IOError output_csv), csv_file = None, final = s\<rparr>)"

text \<open>The exit status of the interpreter: 0 when the script ends normally, 1 when an
  exception escapes.\<close>

definition exit_code :: "run \<Rightarrow> nat" where
  "exit_code r = (case raised r of None \<Rightarrow> 0 | Some e \<Rightarrow> 1)"

subsection \<open>Reading a decimal label back\<close>

definition digit_val :: "char \<Rightarrow> nat" where
  "digit_val c = of_char c - 48"

definition str_val :: "string \<Rightarrow> nat" where
  "str_val s = foldl (\<lambda>a c. 10 * a + digit_val c) 0 s"

section \<open>What a completed run computes, in closed form\<close>

text \<open>
  The definitions of this section are not translations of the script: they say, without
  loops or state, what the loops are proved to compute.

  \<open>index_at\<close> is the normalised index of the pair of files at positions \<open>i\<close> and
  \<open>j\<close> (0 where the pair cannot be decoded; a completed run has no such pair), and
  \<open>decodes\<close> says that the comparison of the pair raises nothing.
\<close>

definition index_at :: "('img, 'h) world \<Rightarrow> path list \<Rightarrow> nat \<Rightarrow> nat \<Rightarrow> real" where
  "index_at W fs i j =
     (case calculate_similarity_index W (fs ! i) (fs ! j) of
        Inl e \<Rightarrow> 0 | Inr raw \<Rightarrow> normalize_index raw)"

definition decodes :: "('img, 'h) world \<Rightarrow> path list \<Rightarrow> nat \<Rightarrow> nat \<Rightarrow> bool" where
  "decodes W fs i j \<longleftrightarrow> \<not> isl (calculate_similarity_index W (fs ! i) (fs ! j))"

text \<open>The two entries one pair at or above the threshold adds; the partners of
  anchor \<open>i\<close> at or above the threshold, in scan order; all entries added under anchor
  \<open>i\<close>.\<close>

definition pair_entries :: "('img, 'h) world \<Rightarrow> path list \<Rightarrow> nat \<Rightarrow> nat \<Rightarrow> entry list" where
  "pair_entries W fs i j =
     [(os_path_basename (fs ! i), index_at W fs i j),
      (os_path_basename (fs ! j), index_at W fs i j)]"

definition qualifying :: "('img, 'h) world \<Rightarrow> path list \<Rightarrow> real \<Rightarrow> nat \<Rightarrow> nat list" where
  "qualifying W fs thr i = filter (\<lambda>j. thr \<le> index_at W fs i j) [i + 1 ..< length fs]"

definition anchor_entries :: "('img, 'h) world \<Rightarrow> path list \<Rightarrow> real \<Rightarrow> nat \<Rightarrow> entry list" where
  "anchor_entries W fs thr i = concat (map (pair_entries W fs i) (qualifying W fs thr i))"

text \<open>Groups numbered from 1 in order of creation, and the groups expected of a
  completed run: one for every anchor with at least one partner, in anchor order.\<close>

definition labelled :: "entry list list \<Rightarrow> groups" where
  "labelled es = zip (map (\<lambda>k. group_label (k + 1)) [0 ..< length es]) es"

definition expected_groups :: "('img, 'h) world \<Rightarrow> path list \<Rightarrow> real \<Rightarrow> groups" where
  "expected_groups W fs thr =
     labelled (filter (\<lambda>es. es \<noteq> []) (map (anchor_entries W fs thr) [0 ..< length fs]))"

text \<open>The pairs in row-major order: \<open>i\<close> over the given indices, \<open>j\<close> from \<open>i + 1\<close>
  to \<open>n - 1\<close>.\<close>

definition rows :: "nat list \<Rightarrow> nat \<Rightarrow> (nat \<times> nat) list" where
  "rows is n = concat (map (\<lambda>i. map (Pair i) [i + 1 ..< n]) is)"

definition row_major :: "nat \<Rightarrow> (nat \<times> nat) list" where
  "row_major n = rows [0 ..< n] n"

text \<open>All entries of a dictionary in report order, and the test a pair passes to
  be entered.\<close>

definition all_entries :: "groups \<Rightarrow> entry list" where
  "all_entries d = concat (map snd d)"

definition qualifies :: "('img, 'h) world \<Rightarrow> path list \<Rightarrow> real \<Rightarrow> nat \<times> nat \<Rightarrow> bool" where
  "qualifies W fs thr p \<longleftrightarrow> thr \<le> index_at W fs (fst p) (snd p)"

text \<open>One inner iteration without the exception; the invariant of the inner loop
  (\<open>es\<close> are the groups closed so far, \<open>cur\<close> the entries of the group of the
  current anchor); and two states that differ at most in what was printed.\<close>

definition visit ::
  "('img, 'h) world \<Rightarrow> path list \<Rightarrow> real \<Rightarrow> bool \<Rightarrow> nat \<Rightarrow> nat \<Rightarrow>
   string option \<times> state \<Rightarrow> string option \<times> state" where
  "visit W fs thr verbose i j gs =
     (case gs of (g, s) \<Rightarrow>
        on_index thr verbose (fs ! i) (fs ! j) (index_at W fs i j)
          (g, s\<lparr>compared := compared s @ [(i, j)]\<rparr>))"

definition open_inv :: "string option \<Rightarrow> groups \<Rightarrow> entry list list \<Rightarrow> entry list \<Rightarrow> bool" where
  "open_inv g d es cur \<longleftrightarrow>
     (cur = [] \<and> g = None \<and> d = labelled es) \<or>
     (cur \<noteq> [] \<and> g = Some (group_label (Suc (length es))) \<and> d = labelled (es @ [cur]))"

definition same :: "state \<Rightarrow> state \<Rightarrow> bool" where
  "same s t \<longleftrightarrow>
     similarity_groups s = similarity_groups t \<and> progress s = progress t \<and>
     compared s = compared t"







section \<open>The grouping engine as the specification words it\<close>

text \<open>
  A second definition of the grouping, not taken from the script but from the state
  machine of the specification, to compare the script with. For each anchor the engine
  starts in state A. In state A, a qualifying edge allocates a new group labelled with
  the next sequential integer, adds the anchor's and the partner's names with the edge's
  score, and moves to state B. In state B, a qualifying edge appends both names again to
  the group opened in state A, which is the last one. When the partners of an anchor are
  exhausted, the engine is back in state A for the next anchor.
\<close>

datatype engine_state = StateA | StateB

fun spec_engine_edge ::
  "engine_state \<times> groups \<Rightarrow> string \<times> string \<times> real \<Rightarrow> engine_state \<times> groups" where
  "spec_engine_edge (StateA, gs) (name_i, name_j, score) =
     (StateB, gs @ [(group_label (length gs + 1), [(name_i, score), (name_j, score)])])"
| "spec_engine_edge (StateB, gs) (name_i, name_j, score) =
     (StateB, butlast gs @ [(fst (last gs), snd (last gs) @ [(name_i, score), (name_j, score)])])"

definition spec_edges ::
  "('img, 'h) world \<Rightarrow> path list \<Rightarrow> real \<Rightarrow> nat \<Rightarrow> (string \<times> string \<times> real) list" where
  "spec_edges W fs thr i =
     map (\<lambda>j. (os_path_basename (fs ! i), os_path_basename (fs ! j), index_at W fs i j))
       (filter (\<lambda>j. index_at W fs i j \<ge> thr) [i + 1 ..< length fs])"

definition spec_engine_anchor ::
  "('img, 'h) world \<Rightarrow> path list \<Rightarrow> real \<Rightarrow> nat \<Rightarrow> groups \<Rightarrow> groups" where
  "spec_engine_anchor W fs thr i gs = snd (fold (\<lambda>e st. spec_engine_edge st e) (spec_edges W fs thr i) (StateA, gs))"

definition spec_engine ::
  "('img, 'h) world \<Rightarrow> path list \<Rightarrow> real \<Rightarrow> groups" where
  "spec_engine W fs thr = fold (spec_engine_anchor W fs thr) [0 ..< length fs] []"

section \<open>A small world to run the script in\<close>

text \<open>
  Three directories. \<^verbatim>\<open>pics\<close> holds two images with the same 8-bit fingerprint, a text
  file, and in a subdirectory a third image whose fingerprint differs from theirs in 4
  bits. \<^verbatim>\<open>bad\<close> holds four image files of which the third cannot be decoded.
  \<^verbatim>\<open>one\<close> holds a single image. Any other directory is empty.
\<close>

definition hamming :: "bool list \<Rightarrow> bool list \<Rightarrow> nat" where
  "hamming h1 h2 = length (filter (\<lambda>(x, y). x \<noteq> y) (zip h1 h2))"

definition demo_hash :: "string \<Rightarrow> bool list" where
  "demo_hash img =
     (if img = ''pics/sub/c.png''
      then [True, True, True, True, False, False, False, False]
      else [False, False, False, False, False, False, False, False])"

definition demo_world :: "(string, bool list) world" where
  "demo_world =
     \<lparr>os_walk = (\<lambda>d.
         if d = ''pics''
         then [(''pics'', [''sub''], [''a.jpg'', ''notes.txt'', ''b.jpg'']),
               (''pics/sub'', [], [''c.png''])]
         else if d = ''bad''
         then [(''bad'', [], [''x.jpg'', ''y.jpg'', ''broken.jpg'', ''z.jpg''])]
         else if d = ''one'' then [(''one'', [], [''only.jpeg'', ''README''])]
         else []),
      Image_open = (\<lambda>p. if p = ''bad/broken.jpg'' then Inl (ImageDecodeError p) else Inr p),
      phash = (\<lambda>img. Inr (demo_hash img)),
      hash_sub = hamming,
      time_time = (\<lambda>k. 2 * real k),
      fl = (\<lambda>x. x),
      open_w = (\<lambda>p. p \<noteq> ''/proc/report.csv'')\<rparr>"

section \<open>Properties\<close>

subsection \<open>Labels\<close>

lemma digit_val_digit:
  assumes "d < 10"
  shows "digit_val (digit d) = d"
proof -
  from assms have "d = 0 \<or> d = 1 \<or> d = 2 \<or> d = 3 \<or> d = 4 \<or> d = 5 \<or> d = 6 \<or> d = 7 \<or>
      d = 8 \<or> d = 9"
    by arith
  then show ?thesis by (elim disjE) (simp_all add: digit_val_def digit_def)
qed

lemma str_val_str_nat: "str_val (str_nat n) = n"
proof (induction n rule: str_nat.induct)
  case (1 n)
  show ?case
  proof (cases "n < 10")
    case True
    then show ?thesis by (simp add: str_nat.simps [of n] str_val_def digit_val_digit)
  next
    case False
    with 1 have "str_val (str_nat (n div 10)) = n div 10" by simp
    with False show ?thesis
      by (simp add: str_nat.simps [of n] str_val_def digit_val_digit)
  qed
qed

lemma str_nat_inj: "str_nat m = str_nat n \<Longrightarrow> m = n"
  by (metis str_val_str_nat)

lemma group_label_inj: "group_label m = group_label n \<Longrightarrow> m = n"
  by (simp add: group_label_def str_nat_inj)

subsection \<open>The normalised index\<close>

text \<open>
  C2. The normaliser should map a raw distance between two fingerprints of \<open>L\<close> bits to
  \<open>raw / L\<close>. The script divides by the constant 256, while \<^verbatim>\<open>imagehash.phash\<close>, called
  with its default size as on lines 12 and 13, returns 64 bits. So the index is a quarter
  of \<open>raw / 64\<close> for every raw distance but 0: a distance of 62 bits, which an image and
  its negative have, gets 31/128 where \<open>62 / 64\<close> is 31/32, and a distance of 4 bits gets
  1/64 where \<open>4 / 64\<close> is 1/16.
\<close>

theorem normalize_index_divides_by_256:
  "normalize_index 62 = 31 / 128 \<and> normalize_index 62 \<noteq> real 62 / real 64 \<and>
   normalize_index 4 = 1 / 64 \<and> normalize_index 4 \<noteq> real 4 / real 64 \<and>
   (normalize_index raw = real raw / real 64) = (raw = 0)"
  by (simp add: normalize_index_def)

subsection \<open>The estimate of the remaining time\<close>

lemma truediv_Suc:
  "truediv W (PyFloat e) (PyInt (int (Suc c))) = Inr (PyFloat (fl W (e / real (Suc c))))"
  by (simp add: truediv_def)



subsection \<open>The dictionary under sequential labels\<close>

lemma labelled_Nil: "labelled [] = []"
  by (simp add: labelled_def)

lemma labelled_snoc: "labelled (es @ [c]) = labelled es @ [(group_label (Suc (length es)), c)]"
  by (simp add: labelled_def)

lemma keys_labelled: "map fst (labelled es) = map (\<lambda>k. group_label (k + 1)) [0 ..< length es]"
  by (simp add: labelled_def)

lemma length_labelled: "length (labelled es) = length es"
  by (simp add: labelled_def)

lemma fresh_label: "\<not> dict_contains (group_label (Suc (length es))) (labelled es)"
  by (auto simp: dict_contains_def keys_labelled dest: group_label_inj)

lemma dict_set_fresh: "\<not> dict_contains k d \<Longrightarrow> dict_set k v d = d @ [(k, v)]"
  by (induction d) (auto simp: dict_contains_def)

lemma dict_append_last:
  "\<not> dict_contains k d \<Longrightarrow> dict_append k x (d @ [(k, v)]) = d @ [(k, v @ [x])]"
  by (induction d) (auto simp: dict_contains_def)

text \<open>The key appended to at lines 65 and 66 is present: lines 63 and 64 have
  inserted it if it was not, and appending keeps the keys.\<close>

lemma dict_contains_ensured:
  "dict_contains k (if \<not> dict_contains k d then dict_set k [] d else d)"
  by (induction d) (auto simp: dict_contains_def)

lemma dict_append_keys: "map fst (dict_append k x d) = map fst d"
  by (induction d) auto

lemma dict_append_contains: "dict_contains k' (dict_append k x d) = dict_contains k' d"
  by (simp add: dict_contains_def dict_append_keys)

lemma dict_contains_snoc: "dict_contains k (d @ [(k, v)])"
  by (simp add: dict_contains_def)

lemma labelled_member: "es \<in> set L \<Longrightarrow> \<exists>l. (l, es) \<in> set (labelled L)"
proof -
  assume "es \<in> set L"
  then obtain k where "k < length L" "L ! k = es" by (auto simp: in_set_conv_nth)
  then have "(group_label (k + 1), es) \<in> set (labelled L)"
    unfolding labelled_def by (auto simp: in_set_zip intro!: exI [of _ k])
  then show ?thesis ..
qed

lemma all_entries_labelled: "all_entries (labelled es) = concat es"
  by (simp add: all_entries_def labelled_def)

subsection \<open>The inner loop\<close>

lemma scan_j_Inr_iff:
  "scan_j W fs thr v i js gs = Inr r \<longleftrightarrow>
     (\<forall>j\<in>set js. decodes W fs i j) \<and> r = fold (visit W fs thr v i) js gs"
proof (induction js arbitrary: gs)
  case Nil
  show ?case by auto
next
  case (Cons j js)
  obtain g s where gs: "gs = (g, s)" by (cases gs)
  show ?case
  proof (cases "calculate_similarity_index W (fs ! i) (fs ! j)")
    case (Inl e)
    then show ?thesis by (simp add: gs decodes_def)
  next
    case (Inr raw)
    then show ?thesis
      by (simp add: gs decodes_def Cons.IH visit_def index_at_def)
  qed
qed

lemma on_index_below:
  "\<not> thr \<le> x \<Longrightarrow> on_index thr v fi fj x (g, s) = (g', s') \<Longrightarrow>
     g' = g \<and> similarity_groups s' = similarity_groups s"
  by (auto simp: on_index_def split: if_splits)

lemma on_index_reach:
  assumes "thr \<le> x" "on_index thr v fi fj x (g, s) = (g', s')"
    "open_inv g (similarity_groups s) es cur"
  shows "open_inv g' (similarity_groups s') es
           (cur @ [(os_path_basename fi, x), (os_path_basename fj, x)])"
proof (cases "cur = []")
  case True
  with assms(3) have g: "g = None" and d: "similarity_groups s = labelled es"
    by (auto simp: open_inv_def)
  from assms(1,2) show ?thesis
    by (auto simp: on_index_def g d Let_def length_labelled fresh_label dict_set_fresh
        dict_append_last open_inv_def labelled_snoc True split: if_splits)
next
  case False
  with assms(3) have g: "g = Some (group_label (Suc (length es)))"
    and d: "similarity_groups s = labelled (es @ [cur])"
    by (auto simp: open_inv_def)
  from assms(1,2) show ?thesis
    by (auto simp: on_index_def g d Let_def fresh_label dict_contains_snoc
        dict_append_last open_inv_def labelled_snoc False split: if_splits)
qed

lemma fold_visit_inv:
  "open_inv g (similarity_groups s) es cur \<Longrightarrow>
   fold (visit W fs thr v i) js (g, s) = (g', s') \<Longrightarrow>
   open_inv g' (similarity_groups s') es
     (cur @ concat (map (pair_entries W fs i) (filter (\<lambda>j. thr \<le> index_at W fs i j) js)))"
proof (induction js arbitrary: g s cur)
  case Nil
  then show ?case by simp
next
  case (Cons j js)
  obtain g1 s1 where v1: "visit W fs thr v i j (g, s) = (g1, s1)" by force
  then have oi: "on_index thr v (fs ! i) (fs ! j) (index_at W fs i j)
      (g, s\<lparr>compared := compared s @ [(i, j)]\<rparr>) = (g1, s1)"
    by (simp add: visit_def)
  from Cons.prems(2) v1 have rest: "fold (visit W fs thr v i) js (g1, s1) = (g', s')" by simp
  show ?case
  proof (cases "thr \<le> index_at W fs i j")
    case True
    from Cons.prems(1) have "open_inv g (similarity_groups (s\<lparr>compared := compared s @ [(i, j)]\<rparr>)) es cur"
      by simp
    from on_index_reach [OF True oi this]
    have "open_inv g1 (similarity_groups s1) es (cur @ pair_entries W fs i j)"
      by (simp add: pair_entries_def)
    from Cons.IH [OF this rest] True show ?thesis by simp
  next
    case False
    from on_index_below [OF False oi] Cons.prems(1)
    have "open_inv g1 (similarity_groups s1) es cur" by simp
    from Cons.IH [OF this rest] False show ?thesis by simp
  qed
qed

lemma scan_j_groups:
  assumes "scan_j W fs thr v i [i + 1 ..< length fs] (None, s) = Inr (g', s')"
    and "similarity_groups s = labelled es"
  shows "similarity_groups s' = labelled (es @ filter (\<lambda>c. c \<noteq> []) [anchor_entries W fs thr i])"
proof -
  from assms(1) have f: "fold (visit W fs thr v i) [i + 1 ..< length fs] (None, s) = (g', s')"
    by (simp add: scan_j_Inr_iff)
  from assms(2) have "open_inv None (similarity_groups s) es []" by (simp add: open_inv_def)
  from fold_visit_inv [OF this f]
  have "open_inv g' (similarity_groups s') es (anchor_entries W fs thr i)"
    by (simp add: anchor_entries_def qualifying_def)
  then show ?thesis by (auto simp: open_inv_def)
qed

lemma on_index_trace:
  "on_index thr v fi fj x (g, s) = (g', s') \<Longrightarrow>
     compared s' = compared s \<and> progress s' = progress s"
  by (auto simp: on_index_def Let_def split: if_splits)

lemma fold_visit_trace:
  "fold (visit W fs thr v i) js (g, s) = (g', s') \<Longrightarrow>
     compared s' = compared s @ map (Pair i) js \<and> progress s' = progress s"
proof (induction js arbitrary: g s)
  case Nil
  then show ?case by simp
next
  case (Cons j js)
  obtain g1 s1 where v1: "visit W fs thr v i j (g, s) = (g1, s1)" by force
  then have "compared s1 = compared s @ [(i, j)] \<and> progress s1 = progress s"
    by (auto simp: visit_def dest: on_index_trace)
  moreover from Cons.prems v1 have "fold (visit W fs thr v i) js (g1, s1) = (g', s')" by simp
  ultimately show ?case using Cons.IH by fastforce
qed

lemma scan_j_Inl:
  "scan_j W fs thr v i js (g, s) = Inl (e, s') \<Longrightarrow>
   \<exists>pre j post. js = pre @ j # post \<and> (\<forall>j'\<in>set pre. decodes W fs i j') \<and>
     calculate_similarity_index W (fs ! i) (fs ! j) = Inl e \<and>
     compared s' = compared s @ map (Pair i) (pre @ [j])"
proof (induction js arbitrary: g s)
  case Nil
  then show ?case by simp
next
  case (Cons j js)
  show ?case
  proof (cases "calculate_similarity_index W (fs ! i) (fs ! j)")
    case (Inl e0)
    with Cons.prems have "e = e0" and "compared s' = compared s @ [(i, j)]" by auto
    with Inl have "j # js = [] @ j # js \<and> (\<forall>j'\<in>set []. decodes W fs i j') \<and>
      calculate_similarity_index W (fs ! i) (fs ! j) = Inl e \<and>
      compared s' = compared s @ map (Pair i) ([] @ [j])" by simp
    then show ?thesis by blast
  next
    case (Inr raw)
    obtain g1 s1 where o1: "on_index thr v (fs ! i) (fs ! j) (normalize_index raw)
        (g, s\<lparr>compared := compared s @ [(i, j)]\<rparr>) = (g1, s1)"
      by force
    from on_index_trace [OF o1] have c1: "compared s1 = compared s @ [(i, j)]" by simp
    from Cons.prems Inr o1 have "scan_j W fs thr v i js (g1, s1) = Inl (e, s')" by simp
    from Cons.IH [OF this] obtain pre j' post where
      js: "js = pre @ j' # post" and ok: "\<forall>x\<in>set pre. decodes W fs i x"
      and bad: "calculate_similarity_index W (fs ! i) (fs ! j') = Inl e"
      and c: "compared s' = compared s1 @ map (Pair i) (pre @ [j'])"
      by blast
    from Inr have dj: "decodes W fs i j" by (simp add: decodes_def)
    have "j # js = (j # pre) @ j' # post \<and> (\<forall>x\<in>set (j # pre). decodes W fs i x) \<and>
      calculate_similarity_index W (fs ! i) (fs ! j') = Inl e \<and>
      compared s' = compared s @ map (Pair i) ((j # pre) @ [j'])"
      using js ok bad c c1 dj by simp
    then show ?thesis by blast
  qed
qed

subsection \<open>The outer loop\<close>

lemma report_progress_groups:
  "report_progress W v n s = Inr s' \<Longrightarrow> similarity_groups s' = similarity_groups s"
  by (auto simp: report_progress_def Let_def split: sum.splits if_splits)

lemma report_progress_Inr:
  "\<exists>s'. report_progress W v n s = Inr s' \<and> progress s' = progress s + 1 \<and>
     compared s' = compared s \<and> similarity_groups s' = similarity_groups s"
  by (simp add: report_progress_def Let_def eta_of_def truediv_def)

lemma scan_i_groups:
  "scan_i W fs thr v is s = Inr s' \<Longrightarrow> similarity_groups s = labelled es \<Longrightarrow>
   similarity_groups s' =
     labelled (es @ filter (\<lambda>c. c \<noteq> []) (map (anchor_entries W fs thr) is))"
proof (induction "is" arbitrary: s es)
  case Nil
  then show ?case by simp
next
  case (Cons i "is")
  from Cons.prems(1) obtain g s1 s2 where
    sj: "scan_j W fs thr v i [i + 1 ..< length fs] (None, s) = Inr (g, s1)"
    and rp: "report_progress W v (length fs) s1 = Inr s2"
    and rest: "scan_i W fs thr v is s2 = Inr s'"
    by (auto split: sum.splits)
  from scan_j_groups [OF sj Cons.prems(2)] report_progress_groups [OF rp]
  have "similarity_groups s2 = labelled (es @ filter (\<lambda>c. c \<noteq> []) [anchor_entries W fs thr i])"
    by simp
  from Cons.IH [OF rest this] show ?case by simp
qed

lemma rows_Cons: "rows (i # is) n = map (Pair i) [i + 1 ..< n] @ rows is n"
  by (simp add: rows_def)

lemma scan_i_trace:
  "scan_i W fs thr v is s = Inr s' \<Longrightarrow>
     compared s' = compared s @ rows is (length fs) \<and> progress s' = progress s + length is"
proof (induction "is" arbitrary: s)
  case Nil
  then show ?case by (simp add: rows_def)
next
  case (Cons i "is")
  from Cons.prems obtain g s1 s2 where
    sj: "scan_j W fs thr v i [i + 1 ..< length fs] (None, s) = Inr (g, s1)"
    and rp: "report_progress W v (length fs) s1 = Inr s2"
    and rest: "scan_i W fs thr v is s2 = Inr s'"
    by (auto split: sum.splits)
  from sj have "fold (visit W fs thr v i) [i + 1 ..< length fs] (None, s) = (g, s1)"
    by (simp add: scan_j_Inr_iff)
  from fold_visit_trace [OF this]
  have "compared s1 = compared s @ map (Pair i) [i + 1 ..< length fs] \<and> progress s1 = progress s" .
  moreover from rp report_progress_Inr [of W v "length fs" s1]
  have "compared s2 = compared s1 \<and> progress s2 = progress s1 + 1" by auto
  ultimately show ?case using Cons.IH [OF rest] by (simp add: rows_def)
qed

lemma scan_i_Inr_iff:
  "(\<exists>s'. scan_i W fs thr v is s = Inr s') \<longleftrightarrow>
     (\<forall>(i, j)\<in>set (rows is (length fs)). decodes W fs i j)"
proof (induction "is" arbitrary: s)
  case Nil
  show ?case by (simp add: rows_def)
next
  case (Cons i "is")
  show ?case
  proof (cases "\<forall>j\<in>set [i + 1 ..< length fs]. decodes W fs i j")
    case False
    then have "\<And>r. scan_j W fs thr v i [i + 1 ..< length fs] (None, s) \<noteq> Inr r"
      by (simp only: scan_j_Inr_iff) blast
    with False show ?thesis by (auto simp: rows_def split: sum.splits)
  next
    case True
    then obtain g s1 where sj: "scan_j W fs thr v i [i + 1 ..< length fs] (None, s) = Inr (g, s1)"
      by (metis scan_j_Inr_iff surj_pair)
    obtain s2 where rp: "report_progress W v (length fs) s1 = Inr s2"
      using report_progress_Inr by blast
    have "scan_i W fs thr v (i # is) s = scan_i W fs thr v is s2"
      by (simp only: scan_i.simps sj rp sum.case prod.case)
    then have "(\<exists>s'. scan_i W fs thr v (i # is) s = Inr s') \<longleftrightarrow> (\<exists>s'. scan_i W fs thr v is s2 = Inr s')"
      by simp
    also have "\<dots> \<longleftrightarrow> (\<forall>(i, j)\<in>set (rows is (length fs)). decodes W fs i j)"
      by (rule Cons.IH)
    finally show ?thesis using True by (auto simp: rows_Cons simp del: scan_i.simps)
  qed
qed

lemma scan_i_Inl:
  "scan_i W fs thr v is s = Inl (e, s') \<Longrightarrow>
   \<exists>pre i j post. rows is (length fs) = pre @ (i, j) # post \<and>
     (\<forall>(a, b)\<in>set pre. decodes W fs a b) \<and>
     calculate_similarity_index W (fs ! i) (fs ! j) = Inl e \<and>
     compared s' = compared s @ pre @ [(i, j)]"
proof (induction "is" arbitrary: s)
  case Nil
  then show ?case by simp
next
  case (Cons i "is")
  let ?js = "[i + 1 ..< length fs]"
  show ?case
  proof (cases "scan_j W fs thr v i ?js (None, s)")
    case (Inl x)
    with Cons.prems have "scan_j W fs thr v i ?js (None, s) = Inl (e, s')" by simp
    from scan_j_Inl [OF this] obtain pre j post where
      js: "?js = pre @ j # post" and ok: "\<forall>x\<in>set pre. decodes W fs i x"
      and bad: "calculate_similarity_index W (fs ! i) (fs ! j) = Inl e"
      and c: "compared s' = compared s @ map (Pair i) (pre @ [j])"
      by blast
    have "rows (i # is) (length fs) =
        map (Pair i) pre @ (i, j) # (map (Pair i) post @ rows is (length fs)) \<and>
      (\<forall>(a, b)\<in>set (map (Pair i) pre). decodes W fs a b) \<and>
      calculate_similarity_index W (fs ! i) (fs ! j) = Inl e \<and>
      compared s' = compared s @ map (Pair i) pre @ [(i, j)]"
      using js ok bad c by (simp add: rows_Cons)
    then show ?thesis by blast
  next
    case (Inr r)
    obtain g s1 where r: "r = (g, s1)" by (cases r)
    from Inr r have sj: "scan_j W fs thr v i ?js (None, s) = Inr (g, s1)" by simp
    then have ok: "\<forall>j\<in>set ?js. decodes W fs i j"
      and f: "fold (visit W fs thr v i) ?js (None, s) = (g, s1)"
      by (simp_all add: scan_j_Inr_iff)
    from fold_visit_trace [OF f] have c1: "compared s1 = compared s @ map (Pair i) ?js" by simp
    obtain s2 where rp: "report_progress W v (length fs) s1 = Inr s2"
      and c2: "compared s2 = compared s1"
      using report_progress_Inr by blast
    have "scan_i W fs thr v (i # is) s = scan_i W fs thr v is s2"
      by (simp only: scan_i.simps sj rp sum.case prod.case)
    with Cons.prems have "scan_i W fs thr v is s2 = Inl (e, s')" by simp
    from Cons.IH [OF this] obtain pre a b post where
      rw: "rows is (length fs) = pre @ (a, b) # post"
      and ok': "\<forall>(x, y)\<in>set pre. decodes W fs x y"
      and bad: "calculate_similarity_index W (fs ! a) (fs ! b) = Inl e"
      and c: "compared s' = compared s2 @ pre @ [(a, b)]"
      by blast
    have "rows (i # is) (length fs) = (map (Pair i) ?js @ pre) @ (a, b) # post \<and>
      (\<forall>(x, y)\<in>set (map (Pair i) ?js @ pre). decodes W fs x y) \<and>
      calculate_similarity_index W (fs ! a) (fs ! b) = Inl e \<and>
      compared s' = compared s @ (map (Pair i) ?js @ pre) @ [(a, b)]"
      using rw ok ok' bad c c1 c2 by (auto simp: rows_Cons)
    then show ?thesis by blast
  qed
qed

subsection \<open>Row-major order\<close>

lemma set_rows: "set (rows is n) = {(i, j). i \<in> set is \<and> i < j \<and> j < n}"
  by (auto simp: rows_def)

lemma set_row_major: "set (row_major n) = {(i, j). i < j \<and> j < n}"
  by (auto simp: row_major_def set_rows)

lemma distinct_rows: "distinct is \<Longrightarrow> distinct (rows is n)"
  by (induction "is") (auto simp: rows_def distinct_map inj_on_def)

lemma distinct_row_major: "distinct (row_major n)"
  by (simp add: row_major_def distinct_rows)

lemma length_row_major: "length (row_major n) = n * (n - 1) div 2"
proof -
  have "length (row_major n) = (\<Sum>i<n. n - Suc i)"
    by (simp add: row_major_def rows_def length_concat comp_def
        interv_sum_list_conv_sum_set_nat atLeast0LessThan)
  also have "\<dots> = (\<Sum>i<n. i)" by (rule sum.nat_diff_reindex)
  also have "\<dots> = n * (n - 1) div 2"
    using Sum_Ico_nat [of 0 n] by (simp add: atLeast0LessThan)
  finally show ?thesis .
qed

lemma row_major_small: "n \<le> 1 \<Longrightarrow> row_major n = []"
  by (cases n) (simp_all add: row_major_def rows_def)

lemma filter_rows:
  "filter P (rows is n) = concat (map (\<lambda>i. map (Pair i) (filter (\<lambda>j. P (i, j)) [i + 1 ..< n])) is)"
  by (induction "is") (simp_all add: rows_def filter_map comp_def)

subsection \<open>The run\<close>

lemma run_completed:
  assumes "raised (generate_similarity_groups W dir thr out v u b) = None"
  obtains s where
    "scan_i W (get_image_files W dir) thr v [0 ..< length (get_image_files W dir)]
       \<lparr>similarity_groups = [], progress = 0,
        console = (if v then [Generating] else []), compared = []\<rparr> = Inr s"
    and "open_w W out"
    and "generate_similarity_groups W dir thr out v u b =
       \<lparr>raised = None,
        csv_file = Some (out, header # data_rows (similarity_groups s)),
        final = (if v then s\<lparr>console := console s @ [WrittenLine out]\<rparr> else s)\<rparr>"
  using assms
  by (auto simp: generate_similarity_groups_def Let_def split: sum.splits if_splits)

lemma run_groups:
  assumes "raised (generate_similarity_groups W dir thr out v u b) = None"
  shows "similarity_groups (final (generate_similarity_groups W dir thr out v u b)) =
     expected_groups W (get_image_files W dir) thr"
proof -
  from assms obtain s where
    sc: "scan_i W (get_image_files W dir) thr v [0 ..< length (get_image_files W dir)]
       \<lparr>similarity_groups = [], progress = 0,
        console = (if v then [Generating] else []), compared = []\<rparr> = Inr s"
    and r: "generate_similarity_groups W dir thr out v u b =
       \<lparr>raised = None,
        csv_file = Some (out, header # data_rows (similarity_groups s)),
        final = (if v then s\<lparr>console := console s @ [WrittenLine out]\<rparr> else s)\<rparr>"
    by (rule run_completed)
  have "similarity_groups s = expected_groups W (get_image_files W dir) thr"
    using scan_i_groups [OF sc, of "[]"] by (simp add: labelled_Nil expected_groups_def)
  with r show ?thesis by simp
qed

lemma run_trace:
  assumes "raised (generate_similarity_groups W dir thr out v u b) = None"
  shows "compared (final (generate_similarity_groups W dir thr out v u b)) =
           row_major (length (get_image_files W dir)) \<and>
         progress (final (generate_similarity_groups W dir thr out v u b)) =
           length (get_image_files W dir)"
proof -
  from assms obtain s where
    sc: "scan_i W (get_image_files W dir) thr v [0 ..< length (get_image_files W dir)]
       \<lparr>similarity_groups = [], progress = 0,
        console = (if v then [Generating] else []), compared = []\<rparr> = Inr s"
    and r: "generate_similarity_groups W dir thr out v u b =
       \<lparr>raised = None,
        csv_file = Some (out, header # data_rows (similarity_groups s)),
        final = (if v then s\<lparr>console := console s @ [WrittenLine out]\<rparr> else s)\<rparr>"
    by (rule run_completed)
  from scan_i_trace [OF sc] r show ?thesis by (simp add: row_major_def)
qed

lemma run_csv:
  assumes "raised (generate_similarity_groups W dir thr out v u b) = None"
  shows "csv_file (generate_similarity_groups W dir thr out v u b) =
     Some (out, header # data_rows (similarity_groups (final (generate_similarity_groups W dir thr out v u b))))"
proof -
  from assms obtain s where
    r: "generate_similarity_groups W dir thr out v u b =
       \<lparr>raised = None,
        csv_file = Some (out, header # data_rows (similarity_groups s)),
        final = (if v then s\<lparr>console := console s @ [WrittenLine out]\<rparr> else s)\<rparr>"
    by (rule run_completed)
  then show ?thesis by simp
qed

lemma run_completes_iff:
  "raised (generate_similarity_groups W dir thr out v u b) = None \<longleftrightarrow>
     (\<forall>(i, j)\<in>set (row_major (length (get_image_files W dir))).
        decodes W (get_image_files W dir) i j) \<and> open_w W out"
proof -
  let ?fs = "get_image_files W dir"
  let ?s0 = "\<lparr>similarity_groups = [], progress = 0,
        console = (if v then [Generating] else []), compared = []\<rparr>"
  have "raised (generate_similarity_groups W dir thr out v u b) = None \<longleftrightarrow>
    (\<exists>s. scan_i W ?fs thr v [0 ..< length ?fs] ?s0 = Inr s) \<and> open_w W out"
    by (auto simp: generate_similarity_groups_def Let_def split: sum.splits)
  then show ?thesis by (simp only: scan_i_Inr_iff row_major_def)
qed

subsection \<open>The expected groups\<close>

lemma concat_filter_nonempty: "concat (filter (\<lambda>c. c \<noteq> []) xs) = concat xs"
  by (induction xs) auto

lemma all_entries_expected:
  "all_entries (expected_groups W fs thr) =
     concat (map (\<lambda>(i, j). pair_entries W fs i j) (filter (qualifies W fs thr) (row_major (length fs))))"
proof -
  have "concat (map (anchor_entries W fs thr) is) =
     concat (map (\<lambda>(i, j). pair_entries W fs i j)
       (filter (qualifies W fs thr) (rows is (length fs))))" for "is"
    by (induction "is")
      (simp_all add: rows_def anchor_entries_def qualifying_def qualifies_def
        filter_map comp_def map_concat)
  then show ?thesis
    by (simp add: expected_groups_def all_entries_labelled concat_filter_nonempty row_major_def)
qed

lemma pair_stream_length: "length (concat (map (pair_entries W fs i) js)) = 2 * length js"
  by (induction js) (auto simp: pair_entries_def)

lemma pair_stream_nth:
  "k < length js \<Longrightarrow>
   concat (map (pair_entries W fs i) js) ! (2 * k) =
     (os_path_basename (fs ! i), index_at W fs i (js ! k)) \<and>
   concat (map (pair_entries W fs i) js) ! (2 * k + 1) =
     (os_path_basename (fs ! (js ! k)), index_at W fs i (js ! k))"
proof (induction js arbitrary: k)
  case Nil
  then show ?case by simp
next
  case (Cons j js)
  show ?case
  proof (cases k)
    case 0
    then show ?thesis by (simp add: pair_entries_def)
  next
    case (Suc k')
    with Cons.prems have "k' < length js" by simp
    from Cons.IH [OF this] Suc show ?thesis by (simp add: pair_entries_def)
  qed
qed

lemma expected_group_anchor:
  assumes "(l, es) \<in> set (expected_groups W fs thr)"
  obtains i where "i < length fs" "es = anchor_entries W fs thr i" "es \<noteq> []"
proof -
  from assms have "es \<in> set (filter (\<lambda>c. c \<noteq> []) (map (anchor_entries W fs thr) [0 ..< length fs]))"
    by (auto simp: expected_groups_def labelled_def dest: set_zip_rightD)
  then show ?thesis using that by auto
qed

lemma expected_group_of_anchor:
  "i < length fs \<Longrightarrow> anchor_entries W fs thr i \<noteq> [] \<Longrightarrow>
   \<exists>l. (l, anchor_entries W fs thr i) \<in> set (expected_groups W fs thr)"
  unfolding expected_groups_def by (rule labelled_member) simp

lemma basename_no_sep: "CHR ''/'' \<notin> set (os_path_basename p)"
  by (auto simp: os_path_basename_def dest: set_takeWhileD)

lemma anchor_entries_names:
  "e \<in> set (anchor_entries W fs thr i) \<Longrightarrow> CHR ''/'' \<notin> set (fst e)"
  by (auto simp: anchor_entries_def pair_entries_def basename_no_sep)

lemma expected_groups_small: "length fs \<le> 1 \<Longrightarrow> expected_groups W fs thr = []"
  by (cases fs) (simp_all add: expected_groups_def anchor_entries_def qualifying_def labelled_def)

lemma subseq_concat_map: "subseq xs ys \<Longrightarrow> subseq (concat (map f xs)) (concat (map f ys))"
  by (induction rule: list_emb.induct) (auto intro: list_emb_append2 list_emb_append_mono)

lemma subseq_filter_mono:
  "(\<And>x. P x \<Longrightarrow> Q x) \<Longrightarrow> subseq (filter P xs) (filter Q xs)"
proof -
  assume "\<And>x. P x \<Longrightarrow> Q x"
  then have "filter P xs = filter P (filter Q xs)" by (auto intro: filter_cong)
  then show ?thesis by (metis subseq_filter_left)
qed

lemma subseq_set: "subseq xs ys \<Longrightarrow> set xs \<subseteq> set ys"
  by (auto elim: list_emb_set)

lemma anchor_entries_subseq:
  "t1 \<le> t2 \<Longrightarrow> subseq (anchor_entries W fs t2 i) (anchor_entries W fs t1 i)"
  unfolding anchor_entries_def qualifying_def
  by (intro subseq_concat_map subseq_filter_mono) simp

subsection \<open>The engine of the specification computes the expected groups\<close>

lemma spec_engine_edges_B:
  "fold (\<lambda>e st. spec_engine_edge st e) (map (\<lambda>j. (a, f j, x j)) js) (StateB, labelled (es @ [cur])) =
     (StateB, labelled (es @ [cur @ concat (map (\<lambda>j. [(a, x j), (f j, x j)]) js)]))"
proof (induction js arbitrary: cur)
  case Nil
  show ?case by simp
next
  case (Cons j js)
  have "spec_engine_edge (StateB, labelled (es @ [cur])) (a, f j, x j) =
      (StateB, labelled (es @ [cur @ [(a, x j), (f j, x j)]]))"
    by (simp add: labelled_snoc)
  with Cons.IH [of "cur @ [(a, x j), (f j, x j)]"] show ?case by simp
qed

lemma spec_engine_edges_A:
  "snd (fold (\<lambda>e st. spec_engine_edge st e) (map (\<lambda>j. (a, f j, x j)) js) (StateA, labelled es)) =
     labelled (es @ filter (\<lambda>c. c \<noteq> []) [concat (map (\<lambda>j. [(a, x j), (f j, x j)]) js)])"
proof (cases js)
  case Nil
  then show ?thesis by simp
next
  case (Cons j js')
  have "spec_engine_edge (StateA, labelled es) (a, f j, x j) =
      (StateB, labelled (es @ [[(a, x j), (f j, x j)]]))"
    by (simp add: labelled_snoc length_labelled)
  with spec_engine_edges_B [of a f x js' es "[(a, x j), (f j, x j)]"] Cons
  show ?thesis by simp
qed

lemma spec_engine_anchor_labelled:
  "spec_engine_anchor W fs thr i (labelled es) =
     labelled (es @ filter (\<lambda>c. c \<noteq> []) [anchor_entries W fs thr i])"
  unfolding spec_engine_anchor_def spec_edges_def anchor_entries_def qualifying_def pair_entries_def
  by (rule spec_engine_edges_A)

lemma spec_engine_fold:
  "fold (spec_engine_anchor W fs thr) is (labelled es) =
     labelled (es @ filter (\<lambda>c. c \<noteq> []) (map (anchor_entries W fs thr) is))"
proof (induction "is" arbitrary: es)
  case Nil
  show ?case by simp
next
  case (Cons i "is")
  show ?case
    using Cons.IH [of "es @ filter (\<lambda>c. c \<noteq> []) [anchor_entries W fs thr i]"]
    by (simp add: spec_engine_anchor_labelled)
qed

lemma spec_engine_expected: "spec_engine W fs thr = expected_groups W fs thr"
  using spec_engine_fold [of W fs thr "[0 ..< length fs]" "[]"]
  by (simp add: spec_engine_def expected_groups_def labelled_Nil)

subsection \<open>Printing changes nothing else\<close>

lemma on_index_same:
  "same s t \<Longrightarrow>
   rel_prod (=) same (on_index thr v fi fj x (g, s)) (on_index thr v' fi fj x (g, t))"
  by (cases v; cases v') (simp_all add: on_index_def same_def Let_def)

lemma scan_j_same:
  "same s t \<Longrightarrow>
   rel_sum (rel_prod (=) same) (rel_prod (=) same)
     (scan_j W fs thr v i js (g, s)) (scan_j W fs thr v' i js (g, t))"
proof (induction js arbitrary: g s t)
  case Nil
  then show ?case by simp
next
  case (Cons j js)
  let ?s = "s\<lparr>compared := compared s @ [(i, j)]\<rparr>"
  let ?t = "t\<lparr>compared := compared t @ [(i, j)]\<rparr>"
  from Cons.prems have st: "same ?s ?t" by (simp add: same_def)
  show ?case
  proof (cases "calculate_similarity_index W (fs ! i) (fs ! j)")
    case (Inl e)
    with st show ?thesis by simp
  next
    case (Inr raw)
    obtain g1 s1 where o1: "on_index thr v (fs ! i) (fs ! j) (normalize_index raw) (g, ?s) = (g1, s1)"
      by force
    obtain g2 t1 where o2: "on_index thr v' (fs ! i) (fs ! j) (normalize_index raw) (g, ?t) = (g2, t1)"
      by force
    from on_index_same [OF st, of thr v "fs ! i" "fs ! j" "normalize_index raw" g v'] o1 o2
    have "g2 = g1" and "same s1 t1" by simp_all
    with Cons.IH [of s1 t1 g1] show ?thesis by (simp add: Inr o1 o2)
  qed
qed

lemma report_progress_same:
  "same s t \<Longrightarrow>
   rel_sum (rel_prod (=) same) same (report_progress W v n s) (report_progress W v' n t)"
  by (cases v; cases v')
    (simp_all add: report_progress_def Let_def same_def eta_of_def truediv_def)

lemma scan_i_same:
  "same s t \<Longrightarrow>
   rel_sum (rel_prod (=) same) same (scan_i W fs thr v is s) (scan_i W fs thr v' is t)"
proof (induction "is" arbitrary: s t)
  case Nil
  then show ?case by simp
next
  case (Cons i "is")
  let ?a = "scan_j W fs thr v i [i + 1 ..< length fs] (None, s)"
  let ?b = "scan_j W fs thr v' i [i + 1 ..< length fs] (None, t)"
  have j: "rel_sum (rel_prod (=) same) (rel_prod (=) same) ?a ?b"
    using Cons.prems by (rule scan_j_same)
  show ?case
  proof (cases ?a)
    case (Inl x)
    with j obtain y where "?b = Inl y" "rel_prod (=) same x y" by (cases ?b) auto
    with Inl show ?thesis by simp
  next
    case (Inr r)
    with j obtain r' where b: "?b = Inr r'" and rr: "rel_prod (=) same r r'" by (cases ?b) auto
    obtain g s1 where r: "r = (g, s1)" by (cases r)
    with rr obtain t1 where r': "r' = (g, t1)" and st1: "same s1 t1" by (cases r') auto
    let ?c = "report_progress W v (length fs) s1"
    let ?d = "report_progress W v' (length fs) t1"
    have p: "rel_sum (rel_prod (=) same) same ?c ?d"
      using st1 by (rule report_progress_same)
    show ?thesis
    proof (cases ?c)
      case (Inl x)
      with p obtain y where "?d = Inl y" "rel_prod (=) same x y" by (cases ?d) auto
      with Inl Inr r b r' show ?thesis by simp
    next
      case c: (Inr s2)
      with p obtain t2 where d: "?d = Inr t2" and st2: "same s2 t2" by (cases ?d) auto
      from Cons.IH [OF st2] Inr r b r' c d show ?thesis by simp
    qed
  qed
qed

subsection \<open>The progress lines of a run\<close>






subsection \<open>Runs in the small world\<close>

lemma demo_pics: "get_image_files demo_world ''pics'' = [''pics/a.jpg'', ''pics/b.jpg'', ''pics/sub/c.png'']"
  by (simp add: get_image_files_def demo_world_def is_image_name_def endswith_def os_path_join_def)

lemma demo_bad: "get_image_files demo_world ''bad'' = [''bad/x.jpg'', ''bad/y.jpg'', ''bad/broken.jpg'', ''bad/z.jpg'']"
  by (simp add: get_image_files_def demo_world_def is_image_name_def endswith_def os_path_join_def)

lemma demo_one: "get_image_files demo_world ''one'' = [''one/only.jpeg'']"
  by (simp add: get_image_files_def demo_world_def is_image_name_def endswith_def os_path_join_def)

lemma demo_none: "get_image_files demo_world ''empty'' = []"
  by (simp add: get_image_files_def demo_world_def)

lemma demo_csi:
  "p \<noteq> ''bad/broken.jpg'' \<Longrightarrow> q \<noteq> ''bad/broken.jpg'' \<Longrightarrow>
   calculate_similarity_index demo_world p q = Inr (hamming (demo_hash p) (demo_hash q))"
  by (simp add: calculate_similarity_index_def demo_world_def)

lemma demo_csi_broken:
  "p \<noteq> ''bad/broken.jpg'' \<Longrightarrow>
   calculate_similarity_index demo_world p ''bad/broken.jpg'' = Inl (ImageDecodeError ''bad/broken.jpg'')"
  by (simp add: calculate_similarity_index_def demo_world_def)

lemma demo_csi_a_b:
  "calculate_similarity_index demo_world ''pics/a.jpg'' ''pics/b.jpg'' = Inr 0"
  by (simp add: demo_csi demo_hash_def hamming_def)

lemma demo_index:
  "fs ! i \<noteq> ''bad/broken.jpg'' \<Longrightarrow> fs ! j \<noteq> ''bad/broken.jpg'' \<Longrightarrow>
   index_at demo_world fs i j = real (hamming (demo_hash (fs ! i)) (demo_hash (fs ! j))) / 256"
  by (simp add: index_at_def demo_csi normalize_index_def)

lemma row_major_3: "row_major 3 = [(0, 1), (0, 2), (1, 2)]"
  by (simp add: row_major_def rows_def upt_rec)

lemma str_nat_1: "str_nat (Suc 0) = ''1''" "str_nat (Suc (Suc 0)) = ''2''"
  by (simp_all add: str_nat.simps digit_def)

lemma demo_pics_completes:
  "raised (generate_similarity_groups demo_world ''pics'' thr ''report.csv'' v u b) = None"
  by (simp add: run_completes_iff demo_pics row_major_def rows_def upt_rec decodes_def demo_csi)
    (simp add: demo_world_def)

lemma demo_pics_expected:
  "expected_groups demo_world [''pics/a.jpg'', ''pics/b.jpg'', ''pics/sub/c.png''] (1 / 100) =
     [(''Similarity Group 1'', [(''a.jpg'', 1 / 64), (''c.png'', 1 / 64)]),
      (''Similarity Group 2'', [(''b.jpg'', 1 / 64), (''c.png'', 1 / 64)])]"
  by (simp add: expected_groups_def anchor_entries_def qualifying_def upt_rec demo_index
      demo_hash_def hamming_def
      pair_entries_def labelled_def group_label_def str_nat_1 os_path_basename_def)

lemma demo_pics_expected_0:
  "expected_groups demo_world [''pics/a.jpg'', ''pics/b.jpg'', ''pics/sub/c.png''] 0 =
     [(''Similarity Group 1'',
        [(''a.jpg'', 0), (''b.jpg'', 0), (''a.jpg'', 1 / 64), (''c.png'', 1 / 64)]),
      (''Similarity Group 2'', [(''b.jpg'', 1 / 64), (''c.png'', 1 / 64)])]"
  by (simp add: expected_groups_def anchor_entries_def qualifying_def upt_rec demo_index
      demo_hash_def hamming_def
      pair_entries_def labelled_def group_label_def str_nat_1 os_path_basename_def)

lemma demo_pics_groups:
  "similarity_groups (final (generate_similarity_groups demo_world ''pics'' (1 / 100) ''report.csv'' v u b)) =
     [(''Similarity Group 1'', [(''a.jpg'', 1 / 64), (''c.png'', 1 / 64)]),
      (''Similarity Group 2'', [(''b.jpg'', 1 / 64), (''c.png'', 1 / 64)])]"
  using run_groups [OF demo_pics_completes, of "1 / 100" v u b]
  by (simp add: demo_pics demo_pics_expected)

lemma demo_pics_groups_0:
  "similarity_groups (final (generate_similarity_groups demo_world ''pics'' 0 ''report.csv'' v u b)) =
     [(''Similarity Group 1'',
        [(''a.jpg'', 0), (''b.jpg'', 0), (''a.jpg'', 1 / 64), (''c.png'', 1 / 64)]),
      (''Similarity Group 2'', [(''b.jpg'', 1 / 64), (''c.png'', 1 / 64)])]"
  using run_groups [OF demo_pics_completes, of 0 v u b]
  by (simp add: demo_pics demo_pics_expected_0)

text \<open>Two runs evaluated step by step: one that completes, with its report, its
  console lines and its calls, and one that a file which cannot be decoded ends.\<close>

lemma demo_csi_vals:
  "calculate_similarity_index demo_world ''pics/a.jpg'' ''pics/sub/c.png'' = Inr 4"
  "calculate_similarity_index demo_world ''pics/b.jpg'' ''pics/sub/c.png'' = Inr 4"
  by (simp_all add: demo_csi demo_hash_def hamming_def)

lemma demo_run_pics:
  "generate_similarity_groups demo_world ''pics'' (1 / 100) ''report.csv'' True False 1 =
     \<lparr>raised = None,
      csv_file = Some (''report.csv'',
        [[S ''Similarity Group'', S ''Image File'', S ''Similarity Index''],
         [S ''Similarity Group 1'', S ''a.jpg'', F (1 / 64)],
         [S ''Similarity Group 1'', S ''c.png'', F (1 / 64)],
         [S ''Similarity Group 2'', S ''b.jpg'', F (1 / 64)],
         [S ''Similarity Group 2'', S ''c.png'', F (1 / 64)]]),
      final =
        \<lparr>similarity_groups =
           [(''Similarity Group 1'', [(''a.jpg'', 1 / 64), (''c.png'', 1 / 64)]),
            (''Similarity Group 2'', [(''b.jpg'', 1 / 64), (''c.png'', 1 / 64)])],
         progress = 3,
         console =
           [Generating,
            SimilarityLine ''pics/a.jpg'' ''pics/b.jpg'' 0,
            SimilarityLine ''pics/a.jpg'' ''pics/sub/c.png'' (1 / 64),
            ProgressLine 1 3 (PyFloat 2) (PyFloat 4),
            SimilarityLine ''pics/b.jpg'' ''pics/sub/c.png'' (1 / 64),
            ProgressLine 2 3 (PyFloat 4) (PyFloat 2),
            ProgressLine 3 3 (PyFloat 6) (PyFloat 0),
            WrittenLine ''report.csv''],
         compared = [(0, 1), (0, 2), (1, 2)]\<rparr>\<rparr>"
  by (simp add: generate_similarity_groups_def demo_pics upt_rec demo_csi_a_b demo_csi_vals
      normalize_index_def on_index_def dict_contains_def group_label_def str_nat_1
      os_path_basename_def report_progress_def eta_of_def truediv_def Let_def
      header_def data_rows_def)
    (simp add: demo_world_def)

lemma demo_run_bad:
  "generate_similarity_groups demo_world ''bad'' (1 / 100) ''report.csv'' False False 1 =
     \<lparr>raised = Some (ImageDecodeError ''bad/broken.jpg''),
      csv_file = None,
      final = \<lparr>similarity_groups = [], progress = 0, console = [],
                compared = [(0, 1), (0, 2)]\<rparr>\<rparr>"
  by (simp add: generate_similarity_groups_def demo_bad upt_rec demo_csi demo_csi_broken
      demo_hash_def hamming_def
      normalize_index_def on_index_def Let_def)

section \<open>The grouping run against its specification\<close>

subsection \<open>Identical images\<close>

text \<open>
  C1. Two identical images have equal fingerprints, raw distance 0 and normalised index
  0, and should be grouped together at every threshold above 0. The script does not group
  them: line 14 returns a distance, and line 60 enters a pair when that distance is at
  least the threshold, so the pairs entered are the most different ones. In \<^verbatim>\<open>pics\<close>
  the files \<^verbatim>\<open>a.jpg\<close> and \<^verbatim>\<open>b.jpg\<close> have the same fingerprint and \<^verbatim>\<open>c.png\<close>
  differs from both; at the threshold 1/100 the run completes, each of the two is grouped
  with \<^verbatim>\<open>c.png\<close>, and no group holds both \<^verbatim>\<open>a.jpg\<close> and \<^verbatim>\<open>b.jpg\<close>.
\<close>

theorem identical_images_not_grouped:
  "get_image_files demo_world ''pics'' = [''pics/a.jpg'', ''pics/b.jpg'', ''pics/sub/c.png''] \<and>
   calculate_similarity_index demo_world ''pics/a.jpg'' ''pics/b.jpg'' = Inr 0 \<and>
   normalize_index 0 = 0 \<and> (0 :: real) < 1 / 100 \<and>
   raised (generate_similarity_groups demo_world ''pics'' (1 / 100) ''report.csv'' False False 1) = None \<and>
   similarity_groups (final
     (generate_similarity_groups demo_world ''pics'' (1 / 100) ''report.csv'' False False 1)) =
     [(''Similarity Group 1'', [(''a.jpg'', 1 / 64), (''c.png'', 1 / 64)]),
      (''Similarity Group 2'', [(''b.jpg'', 1 / 64), (''c.png'', 1 / 64)])] \<and>
   \<not> (\<exists>(l, es) \<in> set (similarity_groups (final
          (generate_similarity_groups demo_world ''pics'' (1 / 100) ''report.csv'' False False 1))).
        ''a.jpg'' \<in> fst ` set es \<and> ''b.jpg'' \<in> fst ` set es)"
  by (simp add: demo_pics demo_csi_a_b demo_pics_completes demo_pics_groups normalize_index_def)

subsection \<open>The grouping engine\<close>

text \<open>
  C3. For every discovered list and threshold, a run that completes leaves exactly the
  groups the state machine of the specification builds (\<open>spec_engine\<close>). In closed form
  (\<open>expected_groups\<close>): each anchor \<open>i\<close> that has at least one partner \<open>j > i\<close> with index
  at or above the threshold gets one group; the groups are labelled
  \<^verbatim>\<open>Similarity Group 1\<close>, \<^verbatim>\<open>Similarity Group 2\<close>, ... in anchor order; the group of
  anchor \<open>i\<close> holds, for each such partner in scan order, the anchor's base name and then
  the partner's base name, both with that pair's index (so the anchor is entered once per
  partner); and a group holds entries of its own anchor only, so it is never reopened once
  \<open>i\<close> advances.
\<close>

theorem grouping_engine_groups:
  assumes "raised (generate_similarity_groups W dir thr out v u b) = None"
  shows "similarity_groups (final (generate_similarity_groups W dir thr out v u b)) =
           spec_engine W (get_image_files W dir) thr \<and>
         similarity_groups (final (generate_similarity_groups W dir thr out v u b)) =
           expected_groups W (get_image_files W dir) thr"
  using run_groups [OF assms] by (simp add: spec_engine_expected)

theorem grouping_engine_groups_witness:
  "raised (generate_similarity_groups demo_world ''pics'' (1 / 100) ''report.csv'' True False 1) = None \<and>
   similarity_groups (final (generate_similarity_groups demo_world ''pics'' (1 / 100) ''report.csv'' True False 1)) =
     [(''Similarity Group 1'', [(''a.jpg'', 1 / 64), (''c.png'', 1 / 64)]),
      (''Similarity Group 2'', [(''b.jpg'', 1 / 64), (''c.png'', 1 / 64)])] \<and>
   raised (generate_similarity_groups demo_world ''pics'' 0 ''report.csv'' True False 1) = None \<and>
   similarity_groups (final (generate_similarity_groups demo_world ''pics'' 0 ''report.csv'' True False 1)) =
     [(''Similarity Group 1'',
        [(''a.jpg'', 0), (''b.jpg'', 0), (''a.jpg'', 1 / 64), (''c.png'', 1 / 64)]),
      (''Similarity Group 2'', [(''b.jpg'', 1 / 64), (''c.png'', 1 / 64)])]"
  using grouping_engine_groups [OF demo_pics_completes, of "1 / 100" True False 1]
    grouping_engine_groups [OF demo_pics_completes, of 0 True False 1]
  by (simp add: demo_pics_completes demo_pics demo_pics_expected demo_pics_expected_0
      spec_engine_expected)

subsection \<open>The pairwise comparator\<close>

text \<open>
  C4. In a run that completes over \<open>N\<close> discovered files, the calls of
  \<^verbatim>\<open>calculate_similarity_index\<close> are exactly the pairs \<open>(i, j)\<close> with \<open>i < j < N\<close>, each
  once, in row-major order, \<open>N (N - 1) / 2\<close> of them; the entries of the groups, read in
  report order, are the two entries of every pair whose index is at least the threshold,
  and of no other pair, in that same order; and the progress counter ends at \<open>N\<close>: it
  is advanced once per value of \<open>i\<close>.
\<close>

theorem comparator_pairs:
  assumes "raised (generate_similarity_groups W dir thr out v u b) = None"
  shows "compared (final (generate_similarity_groups W dir thr out v u b)) =
           row_major (length (get_image_files W dir)) \<and>
         distinct (compared (final (generate_similarity_groups W dir thr out v u b))) \<and>
         set (compared (final (generate_similarity_groups W dir thr out v u b))) =
           {(i, j). i < j \<and> j < length (get_image_files W dir)} \<and>
         length (compared (final (generate_similarity_groups W dir thr out v u b))) =
           length (get_image_files W dir) * (length (get_image_files W dir) - 1) div 2 \<and>
         all_entries (similarity_groups (final (generate_similarity_groups W dir thr out v u b))) =
           concat (map (\<lambda>(i, j). pair_entries W (get_image_files W dir) i j)
             (filter (\<lambda>(i, j). thr \<le> index_at W (get_image_files W dir) i j)
                (row_major (length (get_image_files W dir))))) \<and>
         progress (final (generate_similarity_groups W dir thr out v u b)) =
           length (get_image_files W dir)"
proof -
  have "qualifies W (get_image_files W dir) thr = (\<lambda>(i, j). thr \<le> index_at W (get_image_files W dir) i j)"
    by (auto simp: qualifies_def fun_eq_iff)
  then show ?thesis
  using run_trace [OF assms] run_groups [OF assms]
    all_entries_expected [of W "get_image_files W dir" thr]
  by (simp add: distinct_row_major set_row_major length_row_major)
qed

theorem comparator_pairs_witness:
  "raised (generate_similarity_groups demo_world ''pics'' (1 / 100) ''report.csv'' True False 1) = None \<and>
   compared (final (generate_similarity_groups demo_world ''pics'' (1 / 100) ''report.csv'' True False 1)) =
     [(0, 1), (0, 2), (1, 2)] \<and>
   progress (final (generate_similarity_groups demo_world ''pics'' (1 / 100) ''report.csv'' True False 1)) = 3 \<and>
   all_entries (similarity_groups (final
     (generate_similarity_groups demo_world ''pics'' (1 / 100) ''report.csv'' True False 1))) =
     [(''a.jpg'', 1 / 64), (''c.png'', 1 / 64), (''b.jpg'', 1 / 64), (''c.png'', 1 / 64)]"
proof -
  have len: "length (get_image_files demo_world ''pics'') = 3"
    by (simp add: demo_pics)
  from comparator_pairs [OF demo_pics_completes, of "1 / 100" True False 1]
  have "compared (final (generate_similarity_groups demo_world ''pics'' (1 / 100) ''report.csv'' True False 1)) =
      row_major (length (get_image_files demo_world ''pics''))"
    and "progress (final (generate_similarity_groups demo_world ''pics'' (1 / 100) ''report.csv'' True False 1)) =
      length (get_image_files demo_world ''pics'')"
    by blast+
  then show ?thesis
    by (simp only: len row_major_3 demo_pics_completes demo_pics_groups all_entries_def) simp
qed

subsection \<open>The progress reporter\<close>


subsection \<open>A file that cannot be decoded\<close>

text \<open>
  C6. If the comparison of some pair \<open>i < j\<close> of the discovered files raises, the run ends
  with the exception of the first such pair \<open>(i', j')\<close> in row-major order: every pair
  before it was compared without exception, it is the last pair compared (no later pair
  is tried), the exception is the one the run ends with, and the report file is not
  opened.
\<close>

theorem decode_failure_aborts:
  assumes "i < j" and "j < length (get_image_files W dir)"
    and "isl (calculate_similarity_index W (get_image_files W dir ! i) (get_image_files W dir ! j))"
  shows "\<exists>e i' j' pre post.
     row_major (length (get_image_files W dir)) = pre @ (i', j') # post \<and>
     (\<forall>(a, b)\<in>set pre. \<not> isl (calculate_similarity_index W (get_image_files W dir ! a) (get_image_files W dir ! b))) \<and>
     calculate_similarity_index W (get_image_files W dir ! i') (get_image_files W dir ! j') = Inl e \<and>
     raised (generate_similarity_groups W dir thr out v u b) = Some e \<and>
     csv_file (generate_similarity_groups W dir thr out v u b) = None \<and>
     compared (final (generate_similarity_groups W dir thr out v u b)) = pre @ [(i', j')]"
proof -
  let ?fs = "get_image_files W dir"
  let ?s0 = "\<lparr>similarity_groups = [], progress = 0,
        console = (if v then [Generating] else []), compared = []\<rparr>"
  from assms have "(i, j) \<in> set (rows [0 ..< length ?fs] (length ?fs))" "\<not> decodes W ?fs i j"
    by (auto simp: set_rows decodes_def)
  then have "\<not> (\<forall>(i, j)\<in>set (rows [0 ..< length ?fs] (length ?fs)). decodes W ?fs i j)"
    by blast
  with scan_i_Inr_iff [of W ?fs thr v "[0 ..< length ?fs]" ?s0]
  have "\<not> (\<exists>s'. scan_i W ?fs thr v [0 ..< length ?fs] ?s0 = Inr s')"
    by blast
  then obtain e s' where sc: "scan_i W ?fs thr v [0 ..< length ?fs] ?s0 = Inl (e, s')"
    by (cases "scan_i W ?fs thr v [0 ..< length ?fs] ?s0") auto
  from scan_i_Inl [OF sc] obtain pre p q post where
    "rows [0 ..< length ?fs] (length ?fs) = pre @ (p, q) # post"
    "\<forall>(x, y)\<in>set pre. decodes W ?fs x y"
    "calculate_similarity_index W (?fs ! p) (?fs ! q) = Inl e"
    "compared s' = compared ?s0 @ pre @ [(p, q)]"
    by blast
  moreover from sc have "raised (generate_similarity_groups W dir thr out v u b) = Some e"
    "csv_file (generate_similarity_groups W dir thr out v u b) = None"
    "final (generate_similarity_groups W dir thr out v u b) = s'"
    by (simp_all add: generate_similarity_groups_def)
  ultimately show ?thesis
    unfolding row_major_def decodes_def by (intro exI [of _ e] exI [of _ p] exI [of _ q] exI [of _ pre] exI [of _ post]) simp
qed

theorem decode_failure_aborts_witness:
  "((1 :: nat) < 2 \<and> 2 < length (get_image_files demo_world ''bad'') \<and>
    isl (calculate_similarity_index demo_world (get_image_files demo_world ''bad'' ! 1)
           (get_image_files demo_world ''bad'' ! 2))) \<and>
   (\<exists>e i' j' pre post.
     row_major (length (get_image_files demo_world ''bad'')) = pre @ (i', j') # post \<and>
     (\<forall>(a, b)\<in>set pre. \<not> isl (calculate_similarity_index demo_world
         (get_image_files demo_world ''bad'' ! a) (get_image_files demo_world ''bad'' ! b))) \<and>
     calculate_similarity_index demo_world (get_image_files demo_world ''bad'' ! i')
       (get_image_files demo_world ''bad'' ! j') = Inl e \<and>
     raised (generate_similarity_groups demo_world ''bad'' (1 / 100) ''report.csv'' False False 1) = Some e \<and>
     csv_file (generate_similarity_groups demo_world ''bad'' (1 / 100) ''report.csv'' False False 1) = None \<and>
     compared (final (generate_similarity_groups demo_world ''bad'' (1 / 100) ''report.csv'' False False 1)) =
       pre @ [(i', j')]) \<and>
   raised (generate_similarity_groups demo_world ''bad'' (1 / 100) ''report.csv'' False False 1) =
     Some (ImageDecodeError ''bad/broken.jpg'') \<and>
   compared (final (generate_similarity_groups demo_world ''bad'' (1 / 100) ''report.csv'' False False 1)) =
     [(0, 1), (0, 2)]"
proof -
  have h: "(1 :: nat) < 2" "2 < length (get_image_files demo_world ''bad'')"
    "isl (calculate_similarity_index demo_world (get_image_files demo_world ''bad'' ! 1)
           (get_image_files demo_world ''bad'' ! 2))"
    by (simp_all add: demo_bad demo_csi_broken)
  have "raised (generate_similarity_groups demo_world ''bad'' (1 / 100) ''report.csv'' False False 1) =
      Some (ImageDecodeError ''bad/broken.jpg'')"
    and "compared (final (generate_similarity_groups demo_world ''bad'' (1 / 100) ''report.csv'' False False 1)) =
      [(0, 1), (0, 2)]"
    by (simp_all add: demo_run_bad)
  with decode_failure_aborts [OF h, of "1 / 100" "''report.csv''" False False 1] h
  show ?thesis by blast
qed

subsection \<open>Raising the threshold\<close>

text \<open>
  C7. For the same discovered list and thresholds \<open>t1 < t2\<close>, with both runs completing:
  every pair whose index reaches \<open>t2\<close> reaches \<open>t1\<close>; the entries of the run at \<open>t2\<close>, in
  report order, are a subsequence of the entries of the run at \<open>t1\<close>; and every group of
  the run at \<open>t2\<close> is a subsequence (hence a subset) of a group of the run at \<open>t1\<close>.
\<close>

theorem raising_threshold_removes:
  assumes "t1 < t2"
    and "raised (generate_similarity_groups W dir t1 out1 v1 u1 b1) = None"
    and "raised (generate_similarity_groups W dir t2 out2 v2 u2 b2) = None"
  shows "(\<forall>i j. t2 \<le> index_at W (get_image_files W dir) i j \<longrightarrow>
                 t1 \<le> index_at W (get_image_files W dir) i j) \<and>
         subseq (all_entries (similarity_groups (final (generate_similarity_groups W dir t2 out2 v2 u2 b2))))
                (all_entries (similarity_groups (final (generate_similarity_groups W dir t1 out1 v1 u1 b1)))) \<and>
         (\<forall>(l2, es2) \<in> set (similarity_groups (final (generate_similarity_groups W dir t2 out2 v2 u2 b2))).
            \<exists>(l1, es1) \<in> set (similarity_groups (final (generate_similarity_groups W dir t1 out1 v1 u1 b1))).
              subseq es2 es1 \<and> set es2 \<subseteq> set es1)"
proof -
  let ?fs = "get_image_files W dir"
  from assms(1) have le: "t1 \<le> t2" by simp
  have a: "\<forall>i j. t2 \<le> index_at W ?fs i j \<longrightarrow> t1 \<le> index_at W ?fs i j"
    using assms(1) by auto
  have "subseq (filter (qualifies W ?fs t2) (row_major (length ?fs)))
               (filter (qualifies W ?fs t1) (row_major (length ?fs)))"
    using le by (intro subseq_filter_mono) (simp add: qualifies_def)
  then have b: "subseq (all_entries (expected_groups W ?fs t2)) (all_entries (expected_groups W ?fs t1))"
    by (simp only: all_entries_expected subseq_concat_map)
  have c: "\<exists>(l1, es1) \<in> set (expected_groups W ?fs t1). subseq es2 es1 \<and> set es2 \<subseteq> set es1"
    if "(l2, es2) \<in> set (expected_groups W ?fs t2)" for l2 es2
  proof -
    from that obtain i where i: "i < length ?fs" and es2: "es2 = anchor_entries W ?fs t2 i"
      and ne: "es2 \<noteq> []"
      by (rule expected_group_anchor)
    from anchor_entries_subseq [OF le] have s: "subseq es2 (anchor_entries W ?fs t1 i)"
      by (simp add: es2)
    with ne have "anchor_entries W ?fs t1 i \<noteq> []" by auto
    from expected_group_of_anchor [OF i this] obtain l1 where
      "(l1, anchor_entries W ?fs t1 i) \<in> set (expected_groups W ?fs t1)" ..
    with s subseq_set [OF s] show ?thesis by blast
  qed
  from a b c show ?thesis
    by (simp only: run_groups [OF assms(2)] run_groups [OF assms(3)]) blast
qed

theorem raising_threshold_removes_witness:
  "((0 :: real) < 1 / 100 \<and>
    raised (generate_similarity_groups demo_world ''pics'' 0 ''report.csv'' False False 1) = None \<and>
    raised (generate_similarity_groups demo_world ''pics'' (1 / 100) ''report.csv'' False False 1) = None) \<and>
   similarity_groups (final (generate_similarity_groups demo_world ''pics'' (1 / 100) ''report.csv'' False False 1)) \<noteq> [] \<and>
   subseq (all_entries (similarity_groups (final (generate_similarity_groups demo_world ''pics'' (1 / 100) ''report.csv'' False False 1))))
          (all_entries (similarity_groups (final (generate_similarity_groups demo_world ''pics'' 0 ''report.csv'' False False 1)))) \<and>
   list_all (\<lambda>(l2, es2).
      list_ex (\<lambda>(l1, es1). subseq es2 es1 \<and> set es2 \<subseteq> set es1)
        (similarity_groups (final (generate_similarity_groups demo_world ''pics'' 0 ''report.csv'' False False 1))))
     (similarity_groups (final (generate_similarity_groups demo_world ''pics'' (1 / 100) ''report.csv'' False False 1)))"
proof -
  have h: "(0 :: real) < 1 / 100" by simp
  have ne: "similarity_groups (final (generate_similarity_groups demo_world ''pics'' (1 / 100) ''report.csv'' False False 1)) \<noteq> []"
    by (simp add: demo_pics_groups)
  from raising_threshold_removes [OF h demo_pics_completes demo_pics_completes, of False False 1 False False 1]
    h ne demo_pics_completes [of 0 False False 1] demo_pics_completes [of "1 / 100" False False 1]
  show ?thesis unfolding list_all_iff list_ex_iff by blast
qed

subsection \<open>No images, or one\<close>

text \<open>
  C8. When the directory walk finds no image or one image, and the report file can be
  opened, the run makes no comparison, builds no group, writes a report that holds the
  header row only, and the interpreter exits with status 0.
\<close>

theorem few_images_header_only:
  assumes "length (get_image_files W dir) \<le> 1" and "open_w W out"
  shows "raised (generate_similarity_groups W dir thr out v u b) = None \<and>
         compared (final (generate_similarity_groups W dir thr out v u b)) = [] \<and>
         similarity_groups (final (generate_similarity_groups W dir thr out v u b)) = [] \<and>
         csv_file (generate_similarity_groups W dir thr out v u b) = Some (out, [header]) \<and>
         exit_code (generate_similarity_groups W dir thr out v u b) = 0"
proof -
  have fin: "raised (generate_similarity_groups W dir thr out v u b) = None"
    by (simp add: run_completes_iff row_major_small [OF assms(1)] assms(2))
  from run_trace [OF fin] run_groups [OF fin] run_csv [OF fin] fin show ?thesis
    by (simp add: row_major_small [OF assms(1)] expected_groups_small [OF assms(1)]
        data_rows_def exit_code_def)
qed

theorem few_images_header_only_witness:
  "(length (get_image_files demo_world ''empty'') \<le> 1 \<and>
    length (get_image_files demo_world ''one'') \<le> 1 \<and> open_w demo_world ''report.csv'') \<and>
   get_image_files demo_world ''one'' = [''one/only.jpeg''] \<and>
   csv_file (generate_similarity_groups demo_world ''empty'' (1 / 2) ''report.csv'' True False 1) =
     Some (''report.csv'', [[S ''Similarity Group'', S ''Image File'', S ''Similarity Index'']]) \<and>
   csv_file (generate_similarity_groups demo_world ''one'' (1 / 2) ''report.csv'' True False 1) =
     Some (''report.csv'', [[S ''Similarity Group'', S ''Image File'', S ''Similarity Index'']]) \<and>
   exit_code (generate_similarity_groups demo_world ''empty'' (1 / 2) ''report.csv'' True False 1) = 0 \<and>
   exit_code (generate_similarity_groups demo_world ''one'' (1 / 2) ''report.csv'' True False 1) = 0 \<and>
   compared (final (generate_similarity_groups demo_world ''one'' (1 / 2) ''report.csv'' True False 1)) = [] \<and>
   similarity_groups (final (generate_similarity_groups demo_world ''one'' (1 / 2) ''report.csv'' True False 1)) = []"
proof -
  have h: "length (get_image_files demo_world ''empty'') \<le> 1"
    "length (get_image_files demo_world ''one'') \<le> 1" "open_w demo_world ''report.csv''"
    by (simp_all add: demo_none demo_one) (simp add: demo_world_def)
  from few_images_header_only [OF h(1) h(3), of "1 / 2" True False 1]
    few_images_header_only [OF h(2) h(3), of "1 / 2" True False 1] h
  show ?thesis by (simp add: demo_one header_def)
qed

subsection \<open>The shape of a group\<close>

text \<open>
  C9. In a run that completes, every group is non-empty and of even length, and there is
  one discovered file, the anchor \<open>i\<close>, such that for every \<open>k\<close> the entries at positions
  \<open>2k\<close> and \<open>2k + 1\<close> are those of one pair \<open>(i, j)\<close> with \<open>i < j\<close> whose index is at
  least the threshold: the entry at \<open>2k\<close> is the anchor's display name with that pair's
  index, and the entry at \<open>2k + 1\<close> is the partner's display name with the same index. A
  display name is the base name of the file: no entry's name contains a path separator.
\<close>

theorem group_shape:
  assumes "raised (generate_similarity_groups W dir thr out v u b) = None"
  shows "\<forall>(l, es) \<in> set (similarity_groups (final (generate_similarity_groups W dir thr out v u b))).
           es \<noteq> [] \<and> even (length es) \<and>
           (\<exists>i < length (get_image_files W dir).
              \<forall>k. 2 * k + 1 < length es \<longrightarrow>
                (\<exists>j. i < j \<and> j < length (get_image_files W dir) \<and>
                   thr \<le> index_at W (get_image_files W dir) i j \<and>
                   es ! (2 * k) =
                     (os_path_basename (get_image_files W dir ! i),
                      index_at W (get_image_files W dir) i j) \<and>
                   es ! (2 * k + 1) =
                     (os_path_basename (get_image_files W dir ! j),
                      index_at W (get_image_files W dir) i j))) \<and>
           (\<forall>e \<in> set es. CHR ''/'' \<notin> set (fst e))"
proof -
  let ?fs = "get_image_files W dir"
  have "es \<noteq> [] \<and> even (length es) \<and>
        (\<exists>i < length ?fs. \<forall>k. 2 * k + 1 < length es \<longrightarrow>
           (\<exists>j. i < j \<and> j < length ?fs \<and> thr \<le> index_at W ?fs i j \<and>
              es ! (2 * k) = (os_path_basename (?fs ! i), index_at W ?fs i j) \<and>
              es ! (2 * k + 1) = (os_path_basename (?fs ! j), index_at W ?fs i j))) \<and>
        (\<forall>e \<in> set es. CHR ''/'' \<notin> set (fst e))"
    if "(l, es) \<in> set (expected_groups W ?fs thr)" for l es
  proof -
    from that obtain i where i: "i < length ?fs" and es: "es = anchor_entries W ?fs thr i"
      and ne: "es \<noteq> []"
      by (rule expected_group_anchor)
    let ?js = "qualifying W ?fs thr i"
    have len: "length es = 2 * length ?js"
      by (simp add: es anchor_entries_def pair_stream_length)
    have "\<exists>j. i < j \<and> j < length ?fs \<and> thr \<le> index_at W ?fs i j \<and>
            es ! (2 * k) = (os_path_basename (?fs ! i), index_at W ?fs i j) \<and>
            es ! (2 * k + 1) = (os_path_basename (?fs ! j), index_at W ?fs i j)"
      if "2 * k + 1 < length es" for k
    proof -
      from that len have k: "k < length ?js" by simp
      then have "?js ! k \<in> set ?js" by simp
      then have j: "i < ?js ! k" "?js ! k < length ?fs" "thr \<le> index_at W ?fs i (?js ! k)"
        by (auto simp: qualifying_def)
      from pair_stream_nth [OF k, of W ?fs i]
      have "es ! (2 * k) = (os_path_basename (?fs ! i), index_at W ?fs i (?js ! k)) \<and>
            es ! (2 * k + 1) = (os_path_basename (?fs ! (?js ! k)), index_at W ?fs i (?js ! k))"
        by (simp add: es anchor_entries_def)
      with j show ?thesis by blast
    qed
    moreover have "\<forall>e \<in> set es. CHR ''/'' \<notin> set (fst e)"
      by (simp add: es anchor_entries_names)
    ultimately show ?thesis using i ne len by auto
  qed
  then show ?thesis by (simp only: run_groups [OF assms]) blast
qed

theorem group_shape_witness:
  "raised (generate_similarity_groups demo_world ''pics'' 0 ''report.csv'' False True 8) = None \<and>
   similarity_groups (final (generate_similarity_groups demo_world ''pics'' 0 ''report.csv'' False True 8)) =
     [(''Similarity Group 1'',
        [(''a.jpg'', 0), (''b.jpg'', 0), (''a.jpg'', 1 / 64), (''c.png'', 1 / 64)]),
      (''Similarity Group 2'', [(''b.jpg'', 1 / 64), (''c.png'', 1 / 64)])] \<and>
   get_image_files demo_world ''pics'' = [''pics/a.jpg'', ''pics/b.jpg'', ''pics/sub/c.png''] \<and>
   list_all (\<lambda>(l, es).
           es \<noteq> [] \<and> even (length es) \<and>
           (\<exists>i < length (get_image_files demo_world ''pics'').
              \<forall>k. 2 * k + 1 < length es \<longrightarrow>
                (\<exists>j. i < j \<and> j < length (get_image_files demo_world ''pics'') \<and>
                   0 \<le> index_at demo_world (get_image_files demo_world ''pics'') i j \<and>
                   es ! (2 * k) =
                     (os_path_basename (get_image_files demo_world ''pics'' ! i),
                      index_at demo_world (get_image_files demo_world ''pics'') i j) \<and>
                   es ! (2 * k + 1) =
                     (os_path_basename (get_image_files demo_world ''pics'' ! j),
                      index_at demo_world (get_image_files demo_world ''pics'') i j))) \<and>
           list_all (\<lambda>e. CHR ''/'' \<notin> set (fst e)) es)
     (similarity_groups (final
        (generate_similarity_groups demo_world ''pics'' 0 ''report.csv'' False True 8)))"
proof -
  let ?r = "generate_similarity_groups demo_world ''pics'' 0 ''report.csv'' False True 8"
  have g: "similarity_groups (final ?r) =
     [(''Similarity Group 1'',
        [(''a.jpg'', 0), (''b.jpg'', 0), (''a.jpg'', 1 / 64), (''c.png'', 1 / 64)]),
      (''Similarity Group 2'', [(''b.jpg'', 1 / 64), (''c.png'', 1 / 64)])]"
    by (rule demo_pics_groups_0)
  from group_shape [OF demo_pics_completes, of 0 False True 8]
  have "list_all (\<lambda>(l, es).
           es \<noteq> [] \<and> even (length es) \<and>
           (\<exists>i < length (get_image_files demo_world ''pics'').
              \<forall>k. 2 * k + 1 < length es \<longrightarrow>
                (\<exists>j. i < j \<and> j < length (get_image_files demo_world ''pics'') \<and>
                   0 \<le> index_at demo_world (get_image_files demo_world ''pics'') i j \<and>
                   es ! (2 * k) =
                     (os_path_basename (get_image_files demo_world ''pics'' ! i),
                      index_at demo_world (get_image_files demo_world ''pics'') i j) \<and>
                   es ! (2 * k + 1) =
                     (os_path_basename (get_image_files demo_world ''pics'' ! j),
                      index_at demo_world (get_image_files demo_world ''pics'') i j))) \<and>
           list_all (\<lambda>e. CHR ''/'' \<notin> set (fst e)) es)
     (similarity_groups (final ?r))"
    unfolding list_all_iff by blast
  with g demo_pics demo_pics_completes [of 0 False True 8] show ?thesis by blast
qed

subsection \<open>The flags\<close>

text \<open>
  C10. Two runs over the same world, directory, threshold and report path that differ
  only in \<^verbatim>\<open>verbose\<close>, \<^verbatim>\<open>use_light_model\<close> and \<^verbatim>\<open>batch_size\<close> end the same way
  (the same exception or none), write the same report file with the same rows, and leave
  the same dictionary of groups.
\<close>

theorem flags_do_not_change_groups:
  "raised (generate_similarity_groups W dir thr out v u b) =
     raised (generate_similarity_groups W dir thr out v' u' b') \<and>
   csv_file (generate_similarity_groups W dir thr out v u b) =
     csv_file (generate_similarity_groups W dir thr out v' u' b') \<and>
   similarity_groups (final (generate_similarity_groups W dir thr out v u b)) =
     similarity_groups (final (generate_similarity_groups W dir thr out v' u' b'))"
proof -
  let ?fs = "get_image_files W dir"
  let ?s0 = "\<lparr>similarity_groups = [], progress = 0,
        console = (if v then [Generating] else []), compared = []\<rparr>"
  let ?t0 = "\<lparr>similarity_groups = [], progress = 0,
        console = (if v' then [Generating] else []), compared = []\<rparr>"
  let ?a = "scan_i W ?fs thr v [0 ..< length ?fs] ?s0"
  let ?b = "scan_i W ?fs thr v' [0 ..< length ?fs] ?t0"
  have "same ?s0 ?t0" by (simp add: same_def)
  then have rel: "rel_sum (rel_prod (=) same) same ?a ?b" by (rule scan_i_same)
  show ?thesis
  proof (cases ?a)
    case (Inl x)
    with rel obtain y where b: "?b = Inl y" and xy: "rel_prod (=) same x y" by (cases ?b) auto
    obtain e s where x: "x = (e, s)" by (cases x)
    with xy obtain t where y: "y = (e, t)" and "same s t" by (cases y) auto
    with Inl b x show ?thesis
      by (simp add: generate_similarity_groups_def same_def)
  next
    case (Inr s)
    with rel obtain t where b: "?b = Inr t" and "same s t" by (cases ?b) auto
    with Inr show ?thesis
      by (simp add: generate_similarity_groups_def same_def)
  qed
qed

end
